theory Spec2Isabelle
  imports Main "HOL-Library.Multiset"
begin

section \<open>Exceptions and strings\<close>

text \<open>
  Every exception the endpoints and CRUD helpers raise or catch is a value.
  \<open>HTTPException\<close> carries status code and detail; \<open>ValueError\<close> is what
  \<^verbatim>\<open>range\<close> raises on a zero step; \<open>Error\<close> stands for any other exception
  raised by a collaborator (PDF reader, embedding client, store, QA chain),
  with its message.
\<close>

datatype exn = HTTPException nat string | ValueError string | Error string

definition digit_char :: "nat \<Rightarrow> char" where
  "digit_char d = ''0123456789'' ! d"

fun show_nat :: "nat \<Rightarrow> string" where
  "show_nat n = (if n < 10 then [digit_char n] else show_nat (n div 10) @ [digit_char (n mod 10)])"

declare show_nat.simps [simp del]

text \<open>\<^verbatim>\<open>str(e)\<close>: Starlette renders an HTTPException as \<^verbatim>\<open>"{status_code}: {detail}"\<close>.\<close>

fun str_exn :: "exn \<Rightarrow> string" where
  "str_exn (HTTPException code detail) = show_nat code @ '': '' @ detail"
| "str_exn (ValueError msg) = msg"
| "str_exn (Error msg) = msg"

text \<open>
  Text whose characters the code inspects or hands on as content (the question, the
  extracted document text, the chunks) is a Python \<^verbatim>\<open>str\<close>: a list of Unicode
  code points. Names (user, session, filename) and messages are only compared and
  concatenated and stay \<open>string\<close>. \<open>ascii\<close> reads a literal as code points.
\<close>

type_synonym unicode = "nat list"

definition ascii :: "string \<Rightarrow> unicode" where
  "ascii s = map of_char s"

text \<open>
  The code points that \<^verbatim>\<open>str.strip()\<close> removes, namely those for which
  \<^verbatim>\<open>str.isspace\<close> holds: the ASCII separators and controls, NEL, the no-break
  space and the Unicode space separators and line and paragraph separators.
  \<^verbatim>\<open>s.strip()\<close> is empty exactly when every code point of \<open>s\<close> is one of them.
\<close>

definition is_space :: "nat \<Rightarrow> bool" where
  "is_space c =
     (c \<in> {0x09, 0x0A, 0x0B, 0x0C, 0x0D, 0x1C, 0x1D, 0x1E, 0x1F, 0x20, 0x85, 0xA0,
            0x1680, 0x2028, 0x2029, 0x202F, 0x205F, 0x3000}
      \<or> (0x2000 \<le> c \<and> c \<le> 0x200A))"

text \<open>The same test on integers, as the equation by which \<open>is_space\<close> is evaluated.\<close>

lemma is_space_int [code]:
  "is_space c =
     (int c \<in> {0x09, 0x0A, 0x0B, 0x0C, 0x0D, 0x1C, 0x1D, 0x1E, 0x1F, 0x20, 0x85, 0xA0,
            0x1680, 0x2028, 0x2029, 0x202F, 0x205F, 0x3000}
      \<or> (0x2000 \<le> int c \<and> int c \<le> 0x200A))"
  unfolding is_space_def
  by (simp only: insert_iff empty_iff of_nat_eq_iff [symmetric, where 'a = int] of_nat_numeral
        of_nat_le_iff [symmetric, where 'a = int])

definition strip_empty :: "unicode \<Rightarrow> bool" where
  "strip_empty s = list_all is_space s"

section \<open>Embedding service (crud/vertex\_ai.py)\<close>

text \<open>
  One element of \<^verbatim>\<open>response.embeddings\<close>; \<^verbatim>\<open>resp.values\<close> is its float list.
  Floats are never computed with, so the component type is a parameter.
\<close>

record 'f content_embedding =
  embedding_values :: "'f list"

text \<open>
  \<^verbatim>\<open>VertexAICRUD.generate_embedding\<close>: the remote call
  \<^verbatim>\<open>client.models.embed_content\<close> is the parameter \<open>embed_fn\<close>
  (\<open>Inl\<close> when it raises); any exception becomes an HTTPException 500.
\<close>

definition generate_embedding ::
  "('t list \<Rightarrow> exn + 'f content_embedding list) \<Rightarrow> 't list
     \<Rightarrow> exn + 'f content_embedding list" where
  "generate_embedding embed_fn texts =
     (case embed_fn texts of
        Inr embeddings \<Rightarrow> Inr embeddings
      | Inl e \<Rightarrow> Inl (HTTPException 500 (''Failed to generate embeddings: '' @ str_exn e)))"

section \<open>Embedding batcher (api/v1/endpoints/document.py)\<close>

text \<open>\<^verbatim>\<open>range(0, stop, step)\<close> for \<open>stop \<ge> 0\<close>; a zero step is handled by the caller.\<close>

definition py_range :: "nat \<Rightarrow> int \<Rightarrow> nat list" where
  "py_range stop step =
     (if 0 < step then map (\<lambda>k. k * nat step) [0..<(stop + nat step - 1) div nat step] else [])"

text \<open>\<^verbatim>\<open>xs[i : j]\<close> for \<open>0 \<le> i \<le> j\<close>; slicing clips at the end of the list.\<close>

definition slice :: "'a list \<Rightarrow> nat \<Rightarrow> nat \<Rightarrow> 'a list" where
  "slice xs i j = take (j - i) (drop i xs)"

text \<open>
  \<^verbatim>\<open>await asyncio.gather(*tasks)\<close> over tasks that have already produced their
  outcome: the results in task order, or the exception of a failed task. The batch
  coroutines contain no suspension point, so they run one after the other in list
  order and the first failure in that order is the one that propagates.
\<close>

fun gather :: "(exn + 'a) list \<Rightarrow> exn + 'a list" where
  "gather [] = Inr []"
| "gather (Inl e # rs) = Inl e"
| "gather (Inr x # rs) = (case gather rs of Inl e \<Rightarrow> Inl e | Inr xs \<Rightarrow> Inr (x # xs))"

text \<open>
  \<^verbatim>\<open>generate_embeddings_in_batches\<close>. The first component of the result is the
  list of arguments with which \<^verbatim>\<open>generate_embedding\<close> was invoked, in order; the
  second is the returned vector list or the raised exception.
\<close>

definition generate_embeddings_in_batches ::
  "('t list \<Rightarrow> exn + 'f content_embedding list) \<Rightarrow> 't list \<Rightarrow> int
     \<Rightarrow> 't list list \<times> (exn + 'f list list)" where
  "generate_embeddings_in_batches embed_fn chunks batch_size =
     (if chunks = [] then ([], Inr [])
      else if batch_size = 0 then ([], Inl (ValueError ''range() arg 3 must not be zero''))
      else
        let batches = map (\<lambda>i. slice chunks i (i + nat batch_size))
                          (py_range (length chunks) batch_size)
        in (batches,
            case gather (map (generate_embedding embed_fn) batches) of
              Inl e \<Rightarrow> Inl e
            | Inr all_batch_responses \<Rightarrow>
                Inr (concat (map (map embedding_values) all_batch_responses))))"

section \<open>Document store (crud/firestore.py)\<close>

text \<open>
  The store holds three kinds of documents: the marker document of a user
  (\<^verbatim>\<open>users/{user}\<close>), the marker document of a session
  (\<^verbatim>\<open>users/{user}/sessions/{session}\<close>) and the chunk documents
  (\<^verbatim>\<open>.../sessions/{session}/documents/{id}\<close>). A chunk document is a dictionary
  whose fields may be absent, hence the options. Each collection is a list in the
  order in which the store streams it.
\<close>

datatype timestamp = SERVER_TIMESTAMP

record 'f chunk_doc =
  filename :: "string option"
  created_at :: "timestamp option"
  chunk_text :: "unicode option"
  embedding :: "'f list option"
  active :: "bool option"

type_synonym doc_ref = "string \<times> string \<times> nat"

record 'f firestore =
  user_docs :: "string list"
  session_docs :: "(string \<times> string) list"
  chunk_docs :: "(doc_ref \<times> 'f chunk_doc) list"

text \<open>The operations a write batch can hold; the marker writes are \<^verbatim>\<open>set(..., merge=True)\<close>.\<close>

datatype 'f write_op =
    SetUser string
  | SetSession string string
  | SetChunk doc_ref "'f chunk_doc"
  | DeleteChunk doc_ref

fun apply_write :: "'f firestore \<Rightarrow> 'f write_op \<Rightarrow> 'f firestore" where
  "apply_write db (SetUser u) =
     (if u \<in> set (user_docs db) then db else db\<lparr>user_docs := user_docs db @ [u]\<rparr>)"
| "apply_write db (SetSession u s) =
     (if (u, s) \<in> set (session_docs db) then db
      else db\<lparr>session_docs := session_docs db @ [(u, s)]\<rparr>)"
| "apply_write db (SetChunk r d) =
     db\<lparr>chunk_docs := filter (\<lambda>(q, _). q \<noteq> r) (chunk_docs db) @ [(r, d)]\<rparr>"
| "apply_write db (DeleteChunk r) =
     db\<lparr>chunk_docs := filter (\<lambda>(q, _). q \<noteq> r) (chunk_docs db)\<rparr>"

text \<open>
  The collaborators of the service, as parameters: the embedding client, the PDF
  reader, the chunker and the QA chain of \<^verbatim>\<open>crud/langchain.py\<close> (not part of
  the sources at hand), and the two ways in which the store itself can fail, on a
  batch commit and on streaming a collection (named by its path).
\<close>

record 'f backend =
  embed_content :: "unicode list \<Rightarrow> exn + 'f content_embedding list"
  extract_text :: "string \<Rightarrow> exn + unicode"
  chunk_document_text :: "unicode \<Rightarrow> nat \<Rightarrow> nat \<Rightarrow> exn + unicode list"
  get_answer :: "unicode \<Rightarrow> 'f list list \<Rightarrow> unicode option list \<Rightarrow> exn + unicode option"
  commit_error :: "'f firestore \<Rightarrow> 'f write_op list \<Rightarrow> exn option"
  stream_error :: "'f firestore \<Rightarrow> string list \<Rightarrow> exn option"

text \<open>
  \<^verbatim>\<open>batch.commit()\<close>: the store applies the whole batch or, when the commit
  raises, nothing of it. This all-or-nothing behaviour is the store's contract and is
  assumed here, not derived.
\<close>

definition commit ::
  "'f backend \<Rightarrow> 'f firestore \<Rightarrow> 'f write_op list \<Rightarrow> (exn + unit) \<times> 'f firestore" where
  "commit env db writes =
     (case commit_error env db writes of
        Some e \<Rightarrow> (Inl e, db)
      | None \<Rightarrow> (Inr (), foldl apply_write db writes))"

definition stream_sessions :: "'f backend \<Rightarrow> 'f firestore \<Rightarrow> string \<Rightarrow> exn + string list" where
  "stream_sessions env db user =
     (case stream_error env db [''users'', user, ''sessions''] of
        Some e \<Rightarrow> Inl e
      | None \<Rightarrow> Inr (map snd (filter (\<lambda>(u, s). u = user) (session_docs db))))"

definition stream_documents ::
  "'f backend \<Rightarrow> 'f firestore \<Rightarrow> string \<Rightarrow> string \<Rightarrow> exn + (doc_ref \<times> 'f chunk_doc) list" where
  "stream_documents env db user session =
     (case stream_error env db [''users'', user, ''sessions'', session, ''documents''] of
        Some e \<Rightarrow> Inl e
      | None \<Rightarrow> Inr (filter (\<lambda>((u, s, i), d). u = user \<and> s = session) (chunk_docs db)))"

text \<open>
  \<^verbatim>\<open>documents_collection_ref.document()\<close> draws an automatic identifier that no
  stored document has. Identifiers are numbers here, and the \<open>n\<close> identifiers of a
  batch are the first \<open>n\<close> numbers above every identifier in use.
\<close>

definition next_free :: "'f firestore \<Rightarrow> nat" where
  "next_free db = fold (\<lambda>((u, s, i), d) m. max (Suc i) m) (chunk_docs db) 0"

definition auto_ids :: "'f firestore \<Rightarrow> nat \<Rightarrow> nat list" where
  "auto_ids db n = [next_free db ..< next_free db + n]"

text \<open>\<^verbatim>\<open>FirestoreCRUD.index_batch\<close>; a chunk with its vector is a pair.\<close>

definition chunk_payload :: "string \<Rightarrow> unicode \<times> 'f list \<Rightarrow> 'f chunk_doc" where
  "chunk_payload fname chunk_data =
     \<lparr>filename = Some fname, created_at = Some SERVER_TIMESTAMP,
      chunk_text = Some (fst chunk_data), embedding = Some (snd chunk_data),
      active = Some True\<rparr>"

definition index_batch ::
  "'f backend \<Rightarrow> 'f firestore \<Rightarrow> string \<Rightarrow> string \<Rightarrow> string \<Rightarrow> (unicode \<times> 'f list) list
     \<Rightarrow> (exn + nat list) \<times> 'f firestore" where
  "index_batch env db user session fname chunks_with_vectors =
     (let document_ids = auto_ids db (length chunks_with_vectors);
          batch = SetUser user # SetSession user session #
                  map (\<lambda>(new_id, chunk_data).
                         SetChunk (user, session, new_id) (chunk_payload fname chunk_data))
                      (zip document_ids chunks_with_vectors)
      in case commit env db batch of
           (Inr u, db') \<Rightarrow> (Inr document_ids, db')
         | (Inl e, db') \<Rightarrow>
             (Inl (HTTPException 500 (''Falha ao indexar documentos em lote: '' @ str_exn e)), db'))"

text \<open>
  \<^verbatim>\<open>FirestoreCRUD.delete\<close>. An HTTPException raised inside the \<^verbatim>\<open>try\<close> is
  re-raised as it is; any other exception becomes an HTTPException 500.
\<close>

definition delete_handler :: "exn \<Rightarrow> exn" where
  "delete_handler e =
     (case e of
        HTTPException code detail \<Rightarrow> HTTPException code detail
      | _ \<Rightarrow> HTTPException 500 (''Failed to delete documents: '' @ str_exn e))"

definition quoted :: "string \<Rightarrow> string" where
  "quoted s = [CHR 0x27] @ s @ [CHR 0x27]"

definition delete ::
  "'f backend \<Rightarrow> 'f firestore \<Rightarrow> string \<Rightarrow> string \<Rightarrow> string \<Rightarrow> (exn + string) \<times> 'f firestore" where
  "delete env db user session fname =
     (case stream_documents env db user session of
        Inl e \<Rightarrow> (Inl (delete_handler e), db)
      | Inr docs \<Rightarrow>
          let docs_to_delete = filter (\<lambda>(r, d). filename d = Some fname) docs
          in if docs_to_delete = [] then
               (Inl (delete_handler (HTTPException 404
                  (''No documents found with the filename '' @ quoted fname @ ''.''))), db)
             else
               (case commit env db (map (\<lambda>(r, d). DeleteChunk r) docs_to_delete) of
                  (Inl e, db') \<Rightarrow> (Inl (delete_handler e), db')
                | (Inr u, db') \<Rightarrow>
                    (Inr (''Successfully deleted '' @ show_nat (length docs_to_delete)
                          @ '' document(s) with the filename '' @ quoted fname @ ''.''), db')))"

text \<open>
  \<^verbatim>\<open>FirestoreCRUD.list\<close>. Python dictionaries keep insertion order, so the summary is
  an association list: session id to (filename to (filename, chunk count)).
\<close>

fun stream_all_documents ::
  "'f backend \<Rightarrow> 'f firestore \<Rightarrow> string \<Rightarrow> string list \<Rightarrow> exn + (string \<times> string option) list" where
  "stream_all_documents env db user [] = Inr []"
| "stream_all_documents env db user (session # sessions) =
     (case stream_documents env db user session of
        Inl e \<Rightarrow> Inl e
      | Inr docs_stream \<Rightarrow>
          (case stream_all_documents env db user sessions of
             Inl e \<Rightarrow> Inl e
           | Inr rest \<Rightarrow> Inr (map (\<lambda>(r, d). (session, filename d)) docs_stream @ rest)))"

definition setdefault :: "'k \<Rightarrow> 'v \<Rightarrow> ('k \<times> 'v) list \<Rightarrow> ('k \<times> 'v) list" where
  "setdefault k v kvs = (if k \<in> fst ` set kvs then kvs else kvs @ [(k, v)])"

definition update_at :: "'k \<Rightarrow> ('v \<Rightarrow> 'v) \<Rightarrow> ('k \<times> 'v) list \<Rightarrow> ('k \<times> 'v) list" where
  "update_at k f kvs = map (\<lambda>(k', v). if k' = k then (k', f v) else (k', v)) kvs"

type_synonym sessions_summary = "(string \<times> (string \<times> string \<times> nat) list) list"

definition summary_step :: "sessions_summary \<Rightarrow> string \<times> string option \<Rightarrow> sessions_summary" where
  "summary_step summary doc =
     (case snd doc of
        None \<Rightarrow> summary
      | Some fname \<Rightarrow>
          if fst doc = [] \<or> fname = [] then summary
          else
            let s1 = setdefault (fst doc) [] summary;
                s2 = update_at (fst doc) (setdefault fname (fname, 0)) s1
            in update_at (fst doc) (update_at fname (\<lambda>(f, chunk_count). (f, chunk_count + 1))) s2)"

definition list_crud ::
  "'f backend \<Rightarrow> 'f firestore \<Rightarrow> string \<Rightarrow> exn + (string \<times> (string \<times> nat) list) list" where
  "list_crud env db user =
     (case stream_sessions env db user of
        Inl e \<Rightarrow> Inl (HTTPException 500 (''Failed to list documents: '' @ str_exn e))
      | Inr all_sessions \<Rightarrow>
          (case stream_all_documents env db user all_sessions of
             Inl e \<Rightarrow> Inl (HTTPException 500 (''Failed to list documents: '' @ str_exn e))
           | Inr all_documents_flat \<Rightarrow>
               Inr (map (\<lambda>(session_id, files_dict). (session_id, map snd files_dict))
                        (foldl summary_step [] all_documents_flat))))"

text \<open>
  \<^verbatim>\<open>FirestoreCRUD.vectors\<close>: the loop appends to both lists only when the
  embedding is truthy, that is present and not empty.
\<close>

fun collect_vectors ::
  "(doc_ref \<times> 'f chunk_doc) list \<Rightarrow> 'f list list \<times> unicode option list
     \<Rightarrow> 'f list list \<times> unicode option list" where
  "collect_vectors [] acc = acc"
| "collect_vectors ((r, d) # docs) (all_vectors, all_texts) =
     (case embedding d of
        None \<Rightarrow> collect_vectors docs (all_vectors, all_texts)
      | Some e \<Rightarrow>
          if e = [] then collect_vectors docs (all_vectors, all_texts)
          else collect_vectors docs (all_vectors @ [e], all_texts @ [chunk_text d]))"

definition vectors ::
  "'f backend \<Rightarrow> 'f firestore \<Rightarrow> string \<Rightarrow> string \<Rightarrow> exn + ('f list list \<times> unicode option list)" where
  "vectors env db user session =
     (case stream_documents env db user session of
        Inl e \<Rightarrow> Inl (HTTPException 500 (''Failed to retrieve vectors: '' @ str_exn e))
      | Inr docs \<Rightarrow> Inr (collect_vectors docs ([], [])))"

section \<open>Ingestion endpoint (api/v1/endpoints/document.py)\<close>

text \<open>
  An uploaded file: its name and the outcome of \<^verbatim>\<open>await file.read()\<close>.
\<close>

record upload_file =
  upload_filename :: string
  upload_read :: "exn + string"

text \<open>
  \<^verbatim>\<open>_extract_and_chunk_text\<close>: the PDF reader and the chunker are collaborators;
  every exception is swallowed and yields the empty chunk list.
\<close>

definition extract_and_chunk_text :: "'f backend \<Rightarrow> string \<Rightarrow> unicode list" where
  "extract_and_chunk_text env pdf_content =
     (case extract_text env pdf_content of
        Inl e \<Rightarrow> []
      | Inr document_text \<Rightarrow>
          if strip_empty document_text then []
          else (case chunk_document_text env document_text 1000 150 of
                  Inl e \<Rightarrow> []
                | Inr chunks \<Rightarrow> chunks))"

text \<open>The per-file result dictionary; keys that a result does not carry are \<open>None\<close>.\<close>

record file_result =
  result_filename :: string
  status :: string
  detail :: "string option"
  indexed_chunks :: "nat option"
  document_ids :: "nat list option"

definition error_result :: "string \<Rightarrow> string \<Rightarrow> file_result" where
  "error_result fname d =
     \<lparr>result_filename = fname, status = ''error'', detail = Some d,
      indexed_chunks = None, document_ids = None\<rparr>"

definition success_result :: "string \<Rightarrow> nat list \<Rightarrow> file_result" where
  "success_result fname indexed_ids =
     \<lparr>result_filename = fname, status = ''success'', detail = None,
      indexed_chunks = Some (length indexed_ids), document_ids = Some indexed_ids\<rparr>"

text \<open>
  \<^verbatim>\<open>_process_and_index_file\<close>: every exception raised inside the \<^verbatim>\<open>try\<close>
  becomes an error result carrying \<^verbatim>\<open>str(e)\<close>.
\<close>

definition process_and_index_file ::
  "'f backend \<Rightarrow> 'f firestore \<Rightarrow> string \<Rightarrow> string \<Rightarrow> upload_file
     \<Rightarrow> file_result \<times> 'f firestore" where
  "process_and_index_file env db user session file =
     (case upload_read file of
        Inl e \<Rightarrow> (error_result (upload_filename file) (str_exn e), db)
      | Inr pdf_content \<Rightarrow>
          let chunks = extract_and_chunk_text env pdf_content
          in if chunks = [] then
               (error_result (upload_filename file) ''No text found or failed to create chunks.'', db)
             else
               (case snd (generate_embeddings_in_batches (embed_content env) chunks 250) of
                  Inl e \<Rightarrow> (error_result (upload_filename file) (str_exn e), db)
                | Inr chunk_vectors \<Rightarrow>
                    if chunk_vectors = [] then
                      (error_result (upload_filename file)
                         ''Failed to generate embeddings for text chunks.'', db)
                    else
                      (case index_batch env db user session (upload_filename file)
                              (zip chunks chunk_vectors) of
                         (Inl e, db') \<Rightarrow> (error_result (upload_filename file) (str_exn e), db')
                       | (Inr indexed_ids, db') \<Rightarrow>
                           (success_result (upload_filename file) indexed_ids, db'))))"

text \<open>
  The per-file tasks of \<^verbatim>\<open>index_documents\<close>, gathered. A task touches the store
  only through the one commit of \<^verbatim>\<open>index_batch\<close>, so the tasks are run here in
  list order, each on the store the previous one left; the results come back in list order
  as \<^verbatim>\<open>asyncio.gather\<close> returns them.
\<close>

fun process_files ::
  "'f backend \<Rightarrow> 'f firestore \<Rightarrow> string \<Rightarrow> string \<Rightarrow> upload_file list
     \<Rightarrow> file_result list \<times> 'f firestore" where
  "process_files env db user session [] = ([], db)"
| "process_files env db user session (file # files) =
     (case process_and_index_file env db user session file of
        (r, db1) \<Rightarrow>
          (case process_files env db1 user session files of
             (rs, db2) \<Rightarrow> (r # rs, db2)))"

text \<open>The JSON bodies of \<^verbatim>\<open>index_documents\<close>; a response is status code and body.\<close>

datatype index_content =
    AllFailed string "file_result list"
  | Completed string "file_result list" "file_result list"

definition index_documents ::
  "'f backend \<Rightarrow> 'f firestore \<Rightarrow> string \<Rightarrow> string \<Rightarrow> upload_file list
     \<Rightarrow> (exn + nat \<times> index_content) \<times> 'f firestore" where
  "index_documents env db user session files =
     (if files = [] then (Inl (HTTPException 400 ''No files uploaded.''), db)
      else
        (case process_files env db user session files of
           (results, db') \<Rightarrow>
             let successful_files = filter (\<lambda>r. status r = ''success'') results;
                 failed_files = filter (\<lambda>r. status r = ''error'') results
             in if successful_files = [] \<and> failed_files \<noteq> [] then
                  (Inr (500, AllFailed ''Failed to process all documents.'' failed_files), db')
                else
                  (Inr (200, Completed ''Document processing completed.''
                               successful_files failed_files), db')))"

text \<open>\<^verbatim>\<open>delete_document\<close>: whatever the CRUD call raises is caught and replaced.\<close>

definition delete_document ::
  "'f backend \<Rightarrow> 'f firestore \<Rightarrow> string \<Rightarrow> string \<Rightarrow> string
     \<Rightarrow> (exn + nat \<times> string) \<times> 'f firestore" where
  "delete_document env db user session fname =
     (case delete env db user session fname of
        (Inr message, db') \<Rightarrow> (Inr (200, message), db')
      | (Inl e, db') \<Rightarrow>
          (Inl (HTTPException 500 (''Failed to delete the document: '' @ str_exn e)), db'))"

definition list_documents ::
  "'f backend \<Rightarrow> 'f firestore \<Rightarrow> string
     \<Rightarrow> exn + nat \<times> (string \<times> (string \<times> nat) list) list" where
  "list_documents env db user =
     (case list_crud env db user of
        Inr documents \<Rightarrow> Inr (200, documents)
      | Inl e \<Rightarrow> Inl (HTTPException 500 (''Failed to list documents: '' @ str_exn e)))"

section \<open>Question endpoint (api/v1/endpoints/chat.py)\<close>

text \<open>
  The body of the \<^verbatim>\<open>try\<close> block of \<^verbatim>\<open>question\<close>. The first component
  records the calls made to \<^verbatim>\<open>LangChainQA.get_answer\<close> with their arguments; a
  response is falsy when it is absent or the empty text.
\<close>

definition question_try ::
  "'f backend \<Rightarrow> 'f firestore \<Rightarrow> string \<Rightarrow> string \<Rightarrow> unicode
     \<Rightarrow> (unicode \<times> 'f list list \<times> unicode option list) list \<times> (exn + nat \<times> unicode option)" where
  "question_try env db user session q =
     (if strip_empty q then ([], Inl (HTTPException 400 ''Question cannot be empty.''))
      else
        (case vectors env db user session of
           Inl e \<Rightarrow> ([], Inl e)
         | Inr (vectors_list, texts_list) \<Rightarrow>
             ([(q, vectors_list, texts_list)],
              case get_answer env q vectors_list texts_list of
                Inl e \<Rightarrow> Inl e
              | Inr response \<Rightarrow>
                  if response = None \<or> response = Some [] then
                    Inl (HTTPException 404 ''No relevant information found for the question.'')
                  else Inr (200, response))))"

text \<open>\<^verbatim>\<open>question\<close>: the \<^verbatim>\<open>except Exception\<close> clause wraps every exception of the body.\<close>

definition question ::
  "'f backend \<Rightarrow> 'f firestore \<Rightarrow> string \<Rightarrow> string \<Rightarrow> unicode
     \<Rightarrow> (unicode \<times> 'f list list \<times> unicode option list) list \<times> (exn + nat \<times> unicode option)" where
  "question env db user session q =
     (case question_try env db user session q of
        (calls, Inr response) \<Rightarrow> (calls, Inr response)
      | (calls, Inl e) \<Rightarrow>
          (calls, Inl (HTTPException 500 (''Failed to generate response: '' @ str_exn e))))"

section \<open>Retrieval ranker and answer chain (crud/langchain.py)\<close>







section \<open>Notions used in the statements\<close>

text \<open>
  The chunks that the query of \<^verbatim>\<open>delete\<close> selects: those of the scope whose
  \<^verbatim>\<open>filename\<close> field equals the given name.
\<close>

definition matching_chunks ::
  "'f firestore \<Rightarrow> string \<Rightarrow> string \<Rightarrow> string \<Rightarrow> (doc_ref \<times> 'f chunk_doc) list" where
  "matching_chunks db user session fname =
     filter (\<lambda>(r, d). filename d = Some fname)
       (filter (\<lambda>((u, s, i), d). u = user \<and> s = session) (chunk_docs db))"

text \<open>
  The chunk documents that \<^verbatim>\<open>index_batch\<close> puts into its batch: one per
  pair of identifier and chunk, carrying filename, timestamp, text, vector and the
  active flag.
\<close>

definition chunk_records ::
  "string \<Rightarrow> string \<Rightarrow> string \<Rightarrow> nat list \<Rightarrow> (unicode \<times> 'f list) list
     \<Rightarrow> (doc_ref \<times> 'f chunk_doc) list" where
  "chunk_records user session fname ids chunks_with_vectors =
     map (\<lambda>(new_id, chunk_data). ((user, session, new_id), chunk_payload fname chunk_data))
         (zip ids chunks_with_vectors)"

text \<open>
  The chunk list that \<^verbatim>\<open>_process_and_index_file\<close> derives from a file, and the
  outcome of its embedding step on that list (with the default batch size).
\<close>

definition file_chunks :: "'f backend \<Rightarrow> upload_file \<Rightarrow> unicode list" where
  "file_chunks env file =
     (case upload_read file of Inl e \<Rightarrow> [] | Inr pdf_content \<Rightarrow> extract_and_chunk_text env pdf_content)"

definition file_vectors :: "'f backend \<Rightarrow> upload_file \<Rightarrow> exn + 'f list list" where
  "file_vectors env file =
     snd (generate_embeddings_in_batches (embed_content env) (file_chunks env file) 250)"

section \<open>A concrete backend and store\<close>

definition chunk :: "string \<Rightarrow> string \<Rightarrow> nat list option \<Rightarrow> nat chunk_doc" where
  "chunk fname t e =
     \<lparr>filename = Some fname, created_at = Some SERVER_TIMESTAMP, chunk_text = Some (ascii t),
      embedding = e, active = Some True\<rparr>"

definition example_backend :: "nat backend" where
  "example_backend =
     \<lparr>embed_content = (\<lambda>texts. Inr (map (\<lambda>t. \<lparr>embedding_values = [length t]\<rparr>) texts)),
      extract_text = (\<lambda>pdf_content. Inr (ascii pdf_content)),
      chunk_document_text = (\<lambda>document_text chunk_size chunk_overlap. Inr [document_text]),
      get_answer = (\<lambda>q vectors_list texts_list. Inr None),
      commit_error = (\<lambda>db batch. None),
      stream_error = (\<lambda>db path. None)\<rparr>"

definition example_store :: "nat firestore" where
  "example_store =
     \<lparr>user_docs = [''ana''],
      session_docs = [(''ana'', ''s1'')],
      chunk_docs =
        [((''ana'', ''s1'', 0), chunk ''x.pdf'' ''alpha'' (Some [1, 2])),
         ((''ana'', ''s1'', 1), chunk ''x.pdf'' ''beta'' (Some [])),
         ((''ana'', ''s1'', 2), chunk ''y.pdf'' ''gamma'' None),
         ((''ana'', ''s1'', 3), chunk ''y.pdf'' ''delta'' (Some [3, 4]))]\<rparr>"





definition short_file :: upload_file where
  "short_file = \<lparr>upload_filename = ''z.pdf'', upload_read = Inr ''hello''\<rparr>"

definition corrupt_file :: upload_file where
  "corrupt_file = \<lparr>upload_filename = ''corrupt.pdf'', upload_read = Inr ''  ''\<rparr>"

section \<open>Properties of the embedding batcher\<close>

lemma gather_all_Inr: "gather (map Inr xs) = Inr xs"
  by (induction xs) simp_all

lemma gather_map_Inr: "gather (map (\<lambda>x. Inr (f x)) xs) = Inr (map f xs)"
  by (induction xs) simp_all

lemma gather_fails: "\<exists>r \<in> set rs. isl r \<Longrightarrow> isl (gather rs)"
proof (induction rs rule: gather.induct)
  case 1
  then show ?case by simp
next
  case (2 e rs)
  then show ?case by simp
next
  case (3 x rs)
  then have "isl (gather rs)" by auto
  then show ?case by (cases "gather rs") simp_all
qed

lemma concat_slices_upto:
  "concat (map (\<lambda>k. take b (drop (k * b) xs)) [0..<m]) = take (m * b) xs"
proof (induction m)
  case 0
  then show ?case by simp
next
  case (Suc m)
  have "take (m * b) xs @ take b (drop (m * b) xs) = take (m * b + b) xs"
    by (simp add: take_add)
  with Suc show ?case by (simp add: add.commute)
qed

lemma ceil_div_covers:
  assumes "0 < (b::nat)"
  shows "n \<le> ((n + b - 1) div b) * b"
proof -
  have "n + b - 1 = ((n + b - 1) div b) * b + (n + b - 1) mod b"
    by simp
  moreover have "(n + b - 1) mod b < b"
    using assms by simp
  ultimately show ?thesis
    using assms by linarith
qed

lemma batches_concat:
  assumes "0 < batch_size"
  shows "concat (map (\<lambda>i. slice chunks i (i + nat batch_size))
                     (py_range (length chunks) batch_size)) = chunks"
proof -
  let ?b = "nat batch_size"
  have b: "0 < ?b" using assms by simp
  have "concat (map (\<lambda>i. slice chunks i (i + ?b)) (py_range (length chunks) batch_size))
        = concat (map (\<lambda>k. take ?b (drop (k * ?b) chunks))
                      [0..<(length chunks + ?b - 1) div ?b])"
    using assms by (simp add: py_range_def slice_def comp_def)
  also have "\<dots> = take (((length chunks + ?b - 1) div ?b) * ?b) chunks"
    by (rule concat_slices_upto)
  also have "\<dots> = chunks"
    using ceil_div_covers [OF b, of "length chunks"] by simp
  finally show ?thesis .
qed

lemma gather_Inl_mem: "gather rs = Inl e \<Longrightarrow> Inl e \<in> set rs"
proof (induction rs rule: gather.induct)
  case 1
  then show ?case by simp
next
  case (2 e' rs)
  then show ?case by simp
next
  case (3 x rs)
  then show ?case by (cases "gather rs") simp_all
qed

lemma batches_bounded:
  assumes "0 < batch_size"
    and "b \<in> set (map (\<lambda>i. slice chunks i (i + nat batch_size))
                        (py_range (length chunks) batch_size))"
  shows "length b \<le> nat batch_size \<and> b \<noteq> []"
proof -
  let ?b = "nat batch_size"
  let ?m = "(length chunks + ?b - 1) div ?b"
  have bpos: "0 < ?b" using assms(1) by simp
  from assms obtain k where k: "k < ?m" and b: "b = take ?b (drop (k * ?b) chunks)"
    by (auto simp: py_range_def slice_def)
  have "k + 1 \<le> ?m" using k by simp
  then have "(k + 1) * ?b \<le> ?m * ?b"
    by (rule mult_le_mono1)
  then have "k * ?b + ?b \<le> ?m * ?b"
    by simp
  moreover have "?m * ?b \<le> length chunks + ?b - 1"
    by simp
  ultimately have "k * ?b + ?b \<le> length chunks + ?b - 1"
    by (rule order_trans)
  then have "k * ?b < length chunks"
    using bpos by linarith
  then show ?thesis
    using b bpos by simp
qed

text \<open>
  A single unbatched call over the whole chunk list: one invocation of
  \<^verbatim>\<open>generate_embedding\<close>, its embeddings read off in order. This is the
  reference that the batched function is compared with.
\<close>

definition embed_unbatched ::
  "('t list \<Rightarrow> exn + 'f content_embedding list) \<Rightarrow> 't list \<Rightarrow> exn + 'f list list" where
  "embed_unbatched embed_fn chunks =
     (case generate_embedding embed_fn chunks of
        Inl e \<Rightarrow> Inl e
      | Inr response \<Rightarrow> Inr (map embedding_values response))"

text \<open>
  Claim C1. When the embedding call maps every batch one-to-one and in order to
  embeddings (text \<open>t\<close> always yields \<open>f t\<close>), \<^verbatim>\<open>generate_embeddings_in_batches\<close>
  with a positive batch size (the default is 250) calls the service on consecutive,
  non-empty batches of at most \<open>batch_size\<close> chunks whose concatenation is the input
  list, and returns exactly the vector list of a single unbatched call over all chunks.
\<close>

theorem generate_embeddings_in_batches_order:
  assumes "0 < batch_size"
  shows "concat (fst (generate_embeddings_in_batches (\<lambda>b. Inr (map f b)) chunks batch_size)) = chunks
       \<and> (\<forall>b \<in> set (fst (generate_embeddings_in_batches (\<lambda>b. Inr (map f b)) chunks batch_size)).
             length b \<le> nat batch_size \<and> b \<noteq> [])
       \<and> snd (generate_embeddings_in_batches (\<lambda>b. Inr (map f b)) chunks batch_size)
           = embed_unbatched (\<lambda>b. Inr (map f b)) chunks
       \<and> snd (generate_embeddings_in_batches (\<lambda>b. Inr (map f b)) chunks batch_size)
           = Inr (map (\<lambda>t. embedding_values (f t)) chunks)"
proof (cases "chunks = []")
  case True
  then show ?thesis
    by (simp add: generate_embeddings_in_batches_def embed_unbatched_def generate_embedding_def)
next
  case False
  let ?batches = "map (\<lambda>i. slice chunks i (i + nat batch_size))
                      (py_range (length chunks) batch_size)"
  have nz: "batch_size \<noteq> 0" using assms by simp
  have cc: "concat ?batches = chunks"
    using assms by (rule batches_concat)
  have ge: "generate_embedding (\<lambda>b. Inr (map f b)) = (\<lambda>b. Inr (map f b))"
    by (rule ext) (simp add: generate_embedding_def)
  have g: "gather (map (generate_embedding (\<lambda>b. Inr (map f b))) ?batches)
           = Inr (map (map f) ?batches)"
    unfolding ge by (rule gather_map_Inr)
  have "concat (map (map embedding_values) (map (map f) ?batches))
        = map (\<lambda>t. embedding_values (f t)) (concat ?batches)"
    by (simp add: map_concat comp_def)
  then have r: "concat (map (map embedding_values) (map (map f) ?batches))
        = map (\<lambda>t. embedding_values (f t)) chunks"
    using cc by simp
  have fst_eq: "fst (generate_embeddings_in_batches (\<lambda>b. Inr (map f b)) chunks batch_size) = ?batches"
    using False nz by (simp add: generate_embeddings_in_batches_def Let_def)
  have snd_eq: "snd (generate_embeddings_in_batches (\<lambda>b. Inr (map f b)) chunks batch_size)
           = Inr (map (\<lambda>t. embedding_values (f t)) chunks)"
    using False nz g r by (simp add: generate_embeddings_in_batches_def Let_def)
  have un: "embed_unbatched (\<lambda>b. Inr (map f b)) chunks
           = Inr (map (\<lambda>t. embedding_values (f t)) chunks)"
    by (simp add: embed_unbatched_def generate_embedding_def comp_def)
  have bd: "\<forall>b \<in> set ?batches. length b \<le> nat batch_size \<and> b \<noteq> []"
    using batches_bounded [OF assms] by blast
  show ?thesis
    using cc bd snd_eq un fst_eq by simp
qed

theorem generate_embeddings_in_batches_order_witness:
  "(0::int) < 2
   \<and> fst (generate_embeddings_in_batches
            (\<lambda>b. Inr (map (\<lambda>t. \<lparr>embedding_values = [length t]\<rparr>) b))
            [''a'', ''bb'', ''ccc'', ''dd'', ''e''] 2)
       = [[''a'', ''bb''], [''ccc'', ''dd''], [''e'']]
   \<and> snd (generate_embeddings_in_batches
            (\<lambda>b. Inr (map (\<lambda>t. \<lparr>embedding_values = [length t]\<rparr>) b))
            [''a'', ''bb'', ''ccc'', ''dd'', ''e''] 2)
       = Inr [[1], [2], [3], [2], [1]]"
proof -
  have h: "(0::int) < 2" by simp
  have fst_eq: "fst (generate_embeddings_in_batches
            (\<lambda>b. Inr (map (\<lambda>t. \<lparr>embedding_values = [length t]\<rparr>) b))
            [''a'', ''bb'', ''ccc'', ''dd'', ''e''] 2)
       = [[''a'', ''bb''], [''ccc'', ''dd''], [''e'']]"
    by (simp add: generate_embeddings_in_batches_def py_range_def slice_def upt_rec)
  show ?thesis
    using h fst_eq
      generate_embeddings_in_batches_order [OF h,
        of "\<lambda>t. \<lparr>embedding_values = [length t]\<rparr>" "[''a'', ''bb'', ''ccc'', ''dd'', ''e'']"]
    by (simp add: embed_unbatched_def generate_embedding_def)
qed

text \<open>
  Claim C7. If any batch call fails, the whole operation raises (the HTTPException 500
  of \<^verbatim>\<open>generate_embedding\<close>) and no vector list, partial or otherwise, is returned;
  on the empty chunk list the result is the empty list and the embedding function is
  not invoked at all (the call trace is empty).
\<close>

theorem generate_embeddings_in_batches_failure:
  "((\<exists>b \<in> set (fst (generate_embeddings_in_batches embed_fn chunks batch_size)).
        isl (embed_fn b))
     \<longrightarrow> (\<exists>detail. snd (generate_embeddings_in_batches embed_fn chunks batch_size)
                      = Inl (HTTPException 500 detail)))
   \<and> generate_embeddings_in_batches embed_fn [] batch_size = ([], Inr [])"
proof (intro conjI impI)
  show "generate_embeddings_in_batches embed_fn [] batch_size = ([], Inr [])"
    by (simp add: generate_embeddings_in_batches_def)
next
  let ?G = "generate_embeddings_in_batches embed_fn chunks batch_size"
  assume fails: "\<exists>b \<in> set (fst ?G). isl (embed_fn b)"
  let ?batches = "map (\<lambda>i. slice chunks i (i + nat batch_size))
                      (py_range (length chunks) batch_size)"
  have ne: "chunks \<noteq> []" "batch_size \<noteq> 0"
    using fails by (auto simp: generate_embeddings_in_batches_def split: if_splits)
  then have fst_eq: "fst ?G = ?batches"
    by (simp add: generate_embeddings_in_batches_def Let_def)
  let ?rs = "map (generate_embedding embed_fn) ?batches"
  from fails fst_eq obtain b where b: "b \<in> set ?batches" "isl (embed_fn b)"
    by auto
  then have "isl (generate_embedding embed_fn b)"
    by (cases "embed_fn b") (simp_all add: generate_embedding_def)
  with b(1) have "\<exists>r \<in> set ?rs. isl r"
    by auto
  then have "isl (gather ?rs)"
    by (rule gather_fails)
  then obtain e where e: "gather ?rs = Inl e"
    by (cases "gather ?rs") simp_all
  then have "Inl e \<in> set ?rs"
    by (rule gather_Inl_mem)
  then obtain b' where "generate_embedding embed_fn b' = Inl e"
    by auto
  then obtain detail where "e = HTTPException 500 detail"
    by (cases "embed_fn b'") (auto simp: generate_embedding_def)
  with e ne have "snd ?G = Inl (HTTPException 500 detail)"
    by (simp add: generate_embeddings_in_batches_def Let_def)
  then show "\<exists>detail. snd ?G = Inl (HTTPException 500 detail)"
    by blast
qed

theorem generate_embeddings_in_batches_failure_witness:
  "(\<exists>b \<in> set (fst (generate_embeddings_in_batches
        (\<lambda>b. if b = [''c''] then Inl (Error ''quota'') else Inr (map (\<lambda>t. \<lparr>embedding_values = [length t]\<rparr>) b))
        [''a'', ''b'', ''c''] 2)).
      isl ((\<lambda>b. if b = [''c''] then Inl (Error ''quota'') else Inr (map (\<lambda>t. \<lparr>embedding_values = [length t]\<rparr>) b)) b))
   \<and> (\<exists>detail. snd (generate_embeddings_in_batches
        (\<lambda>b. if b = [''c''] then Inl (Error ''quota'') else Inr (map (\<lambda>t. \<lparr>embedding_values = [length t]\<rparr>) b))
        [''a'', ''b'', ''c''] 2) = Inl (HTTPException 500 detail))"
proof -
  let ?e = "\<lambda>b. if b = [''c''] then Inl (Error ''quota'')
                 else Inr (map (\<lambda>t. \<lparr>embedding_values = [length t]\<rparr>) b)"
  have fst_eq: "fst (generate_embeddings_in_batches ?e [''a'', ''b'', ''c''] 2)
                = [[''a'', ''b''], [''c'']]"
    by (simp add: generate_embeddings_in_batches_def py_range_def slice_def upt_rec)
  have h: "\<exists>b \<in> set (fst (generate_embeddings_in_batches ?e [''a'', ''b'', ''c''] 2)). isl (?e b)"
    unfolding fst_eq by simp
  show ?thesis
    using h generate_embeddings_in_batches_failure [of ?e "[''a'', ''b'', ''c'']" 2]
    by blast
qed

section \<open>Properties of the document store\<close>

lemma collect_vectors_eq:
  "collect_vectors docs (vs, ts) =
     (vs @ map (\<lambda>(r, d). the (embedding d))
             (filter (\<lambda>(r, d). embedding d \<noteq> None \<and> embedding d \<noteq> Some []) docs),
      ts @ map (\<lambda>(r, d). chunk_text d)
             (filter (\<lambda>(r, d). embedding d \<noteq> None \<and> embedding d \<noteq> Some []) docs))"
proof (induction docs arbitrary: vs ts)
  case Nil
  then show ?case by simp
next
  case (Cons p docs)
  obtain r d where p: "p = (r, d)" by (cases p)
  show ?case
  proof (cases "embedding d")
    case None
    with p Cons show ?thesis by simp
  next
    case (Some e)
    with p Cons show ?thesis by (cases "e = []") simp_all
  qed
qed

lemma delete_chunks_fold:
  "foldl apply_write db (map DeleteChunk rs)
     = db\<lparr>chunk_docs := filter (\<lambda>(q, d). q \<notin> set rs) (chunk_docs db)\<rparr>"
proof (induction rs arbitrary: db)
  case Nil
  then show ?case by simp
next
  case (Cons r rs)
  have "filter (\<lambda>(q, d). q \<notin> set rs) (filter (\<lambda>(q, _). q \<noteq> r) (chunk_docs db))
        = filter (\<lambda>(q, d). q \<notin> set (r # rs)) (chunk_docs db)"
    by (auto intro!: filter_cong)
  with Cons show ?case by simp
qed

lemma stream_documents_Inr:
  "stream_documents env db user session = Inr docs
     \<Longrightarrow> docs = filter (\<lambda>((u, s, i), d). u = user \<and> s = session) (chunk_docs db)"
  by (auto simp: stream_documents_def split: option.splits)

text \<open>
  Claim C9. Whenever \<^verbatim>\<open>vectors\<close> returns, its two lists have the same length and
  are aligned: position \<open>i\<close> of both comes from the same stored chunk of the scope, in
  stream order, and exactly the chunks whose embedding is present and non-empty contribute;
  a chunk with a missing or empty embedding contributes to neither list.
\<close>

theorem vectors_aligned:
  assumes "vectors env db user session = Inr (all_vectors, all_texts)"
  shows "length all_vectors = length all_texts
       \<and> zip all_vectors all_texts
           = map (\<lambda>(r, d). (the (embedding d), chunk_text d))
               (filter (\<lambda>(r, d). embedding d \<noteq> None \<and> embedding d \<noteq> Some [])
                  (filter (\<lambda>((u, s, i), d). u = user \<and> s = session) (chunk_docs db)))"
proof -
  let ?docs = "filter (\<lambda>((u, s, i), d). u = user \<and> s = session) (chunk_docs db)"
  let ?kept = "filter (\<lambda>(r, d). embedding d \<noteq> None \<and> embedding d \<noteq> Some []) ?docs"
  from assms obtain docs where d: "stream_documents env db user session = Inr docs"
    and c: "collect_vectors docs ([], []) = (all_vectors, all_texts)"
    by (auto simp: vectors_def split: sum.splits)
  from d have "docs = ?docs" by (rule stream_documents_Inr)
  with c have "all_vectors = map (\<lambda>(r, d). the (embedding d)) ?kept"
    and "all_texts = map (\<lambda>(r, d). chunk_text d) ?kept"
    by (simp_all add: collect_vectors_eq)
  then show ?thesis
    by (simp add: zip_map_map zip_same_conv_map case_prod_unfold)
qed

lemma example_vectors:
  "vectors example_backend example_store ''ana'' ''s1''
     = Inr ([[1, 2], [3, 4]], [Some (ascii ''alpha''), Some (ascii ''delta'')])"
  by (simp add: vectors_def stream_documents_def example_backend_def example_store_def chunk_def)

theorem vectors_aligned_witness:
  "vectors example_backend example_store ''ana'' ''s1''
     = Inr ([[1, 2], [3, 4]], [Some (ascii ''alpha''), Some (ascii ''delta'')])
   \<and> length [[1, 2], [3, 4 :: nat]] = length [Some (ascii ''alpha''), Some (ascii ''delta'')]
   \<and> zip [[1, 2], [3, 4 :: nat]] [Some (ascii ''alpha''), Some (ascii ''delta'')]
       = [([1, 2], Some (ascii ''alpha'')), ([3, 4], Some (ascii ''delta''))]"
  using example_vectors vectors_aligned [OF example_vectors] by simp

lemma delete_cases:
  assumes "delete env db user session fname = (outcome, db')"
  shows "(isl outcome \<and> db' = db)
       \<or> (\<not> isl outcome
            \<and> db' = db\<lparr>chunk_docs := filter (\<lambda>(q, d). q \<notin> fst ` set (filter (\<lambda>(r, d). filename d = Some fname)
                 (filter (\<lambda>((u, s, i), d). u = user \<and> s = session) (chunk_docs db)))) (chunk_docs db)\<rparr>)"
proof (cases "stream_documents env db user session")
  case (Inl e)
  with assms show ?thesis by (auto simp: delete_def)
next
  case (Inr docs)
  then have docs: "docs = filter (\<lambda>((u, s, i), d). u = user \<and> s = session) (chunk_docs db)"
    by (rule stream_documents_Inr)
  let ?del = "filter (\<lambda>(r, d). filename d = Some fname) docs"
  have m: "map (\<lambda>(r, d). DeleteChunk r) ?del = map DeleteChunk (map fst ?del)"
    by (simp add: case_prod_unfold comp_def)
  show ?thesis
  proof (cases "?del = []")
    case True
    with assms Inr show ?thesis by (auto simp: delete_def)
  next
    case False
    show ?thesis
    proof (cases "commit_error env db (map (\<lambda>(r, d). DeleteChunk r) ?del)")
      case (Some e)
      with assms Inr False show ?thesis
        by (auto simp: delete_def commit_def Let_def)
    next
      case None
      have "foldl apply_write db (map DeleteChunk (map fst ?del))
            = db\<lparr>chunk_docs := filter (\<lambda>(q, d). q \<notin> set (map fst ?del)) (chunk_docs db)\<rparr>"
        by (rule delete_chunks_fold)
      then have "foldl apply_write db (map (\<lambda>(r, d). DeleteChunk r) ?del)
            = db\<lparr>chunk_docs := filter (\<lambda>(q, d). q \<notin> fst ` set ?del) (chunk_docs db)\<rparr>"
        unfolding m by simp
      with None have "commit env db (map (\<lambda>(r, d). DeleteChunk r) ?del)
                 = (Inr (), db\<lparr>chunk_docs := filter (\<lambda>(q, d). q \<notin> fst ` set ?del) (chunk_docs db)\<rparr>)"
        unfolding commit_def by simp
      with assms Inr False show ?thesis
        unfolding docs by (auto simp: delete_def Let_def)
    qed
  qed
qed

lemma example_delete:
  "delete example_backend example_store ''ana'' ''s1'' ''x.pdf''
     = (Inr ''Successfully deleted 2 document(s) with the filename 'x.pdf'.'',
        example_store\<lparr>chunk_docs :=
           [((''ana'', ''s1'', 2), chunk ''y.pdf'' ''gamma'' None),
            ((''ana'', ''s1'', 3), chunk ''y.pdf'' ''delta'' (Some [3, 4]))]\<rparr>)"
  by (simp add: delete_def stream_documents_def commit_def example_backend_def example_store_def
        chunk_def quoted_def show_nat.simps digit_char_def)

text \<open>
  Claim C10. When the request matches at least one chunk, \<^verbatim>\<open>delete\<close> puts the
  deletion of every matched chunk into one batch and commits it once: either the call
  raises and the store is exactly as before, or it returns and no matched chunk is left
  (all other chunks and the marker documents stay). A partial deletion is never stored.
\<close>

theorem delete_atomic:
  assumes "matching_chunks db user session fname \<noteq> []"
    and "delete env db user session fname = (outcome, db')"
  shows "((isl outcome \<and> db' = db)
          \<or> (\<not> isl outcome
              \<and> chunk_docs db'
                  = filter (\<lambda>(r, d). r \<notin> fst ` set (matching_chunks db user session fname))
                      (chunk_docs db)
              \<and> (\<forall>x \<in> set (matching_chunks db user session fname). x \<notin> set (chunk_docs db'))
              \<and> user_docs db' = user_docs db \<and> session_docs db' = session_docs db))
       \<and> (stream_error env db [''users'', user, ''sessions'', session, ''documents''] = None
            \<longrightarrow> db' = snd (commit env db (map (\<lambda>(r, d). DeleteChunk r)
                                             (matching_chunks db user session fname))))"
proof -
  let ?matched = "matching_chunks db user session fname"
  have one_commit: "db' = snd (commit env db (map (\<lambda>(r, d). DeleteChunk r) ?matched))"
    if ok: "stream_error env db [''users'', user, ''sessions'', session, ''documents''] = None"
  proof -
    from ok have "stream_documents env db user session
                  = Inr (filter (\<lambda>((u, s, i), d). u = user \<and> s = session) (chunk_docs db))"
      by (simp add: stream_documents_def)
    with assms show ?thesis
      by (auto simp: delete_def matching_chunks_def Let_def split: prod.splits sum.splits)
  qed
  from delete_cases [OF assms(2)]
  have "(isl outcome \<and> db' = db)
      \<or> (\<not> isl outcome
          \<and> db' = db\<lparr>chunk_docs := filter (\<lambda>(q, d). q \<notin> fst ` set ?matched) (chunk_docs db)\<rparr>)"
    unfolding matching_chunks_def .
  then show ?thesis
  proof
    assume "isl outcome \<and> db' = db"
    with one_commit show ?thesis by blast
  next
    assume a: "\<not> isl outcome
          \<and> db' = db\<lparr>chunk_docs := filter (\<lambda>(q, d). q \<notin> fst ` set ?matched) (chunk_docs db)\<rparr>"
    then have cd: "chunk_docs db' = filter (\<lambda>(r, d). r \<notin> fst ` set ?matched) (chunk_docs db)"
      and ud: "user_docs db' = user_docs db" and sd: "session_docs db' = session_docs db"
      by simp_all
    have gone: "\<forall>x \<in> set ?matched. x \<notin> set (chunk_docs db')"
      unfolding cd by force
    from a cd ud sd gone one_commit show ?thesis by blast
  qed
qed

lemma example_matched:
  "matching_chunks example_store ''ana'' ''s1'' ''x.pdf''
     = [((''ana'', ''s1'', 0), chunk ''x.pdf'' ''alpha'' (Some [1, 2])),
        ((''ana'', ''s1'', 1), chunk ''x.pdf'' ''beta'' (Some []))]"
  by (simp add: matching_chunks_def example_store_def chunk_def)

theorem delete_atomic_witness:
  "matching_chunks example_store ''ana'' ''s1'' ''x.pdf'' \<noteq> []
   \<and> delete example_backend example_store ''ana'' ''s1'' ''x.pdf''
       = (Inr ''Successfully deleted 2 document(s) with the filename 'x.pdf'.'',
          example_store\<lparr>chunk_docs :=
            [((''ana'', ''s1'', 2), chunk ''y.pdf'' ''gamma'' None),
             ((''ana'', ''s1'', 3), chunk ''y.pdf'' ''delta'' (Some [3, 4]))]\<rparr>)
   \<and> ((''ana'', ''s1'', 0), chunk ''x.pdf'' ''alpha'' (Some [1, 2]))
        \<in> set (matching_chunks example_store ''ana'' ''s1'' ''x.pdf'')
   \<and> ((''ana'', ''s1'', 0), chunk ''x.pdf'' ''alpha'' (Some [1, 2]))
        \<notin> set (chunk_docs (example_store\<lparr>chunk_docs :=
            [((''ana'', ''s1'', 2), chunk ''y.pdf'' ''gamma'' None),
             ((''ana'', ''s1'', 3), chunk ''y.pdf'' ''delta'' (Some [3, 4]))]\<rparr>))"
proof -
  have m: "((''ana'', ''s1'', 0), chunk ''x.pdf'' ''alpha'' (Some [1, 2]))
        \<in> set (matching_chunks example_store ''ana'' ''s1'' ''x.pdf'')"
    by (simp add: example_matched)
  have h: "matching_chunks example_store ''ana'' ''s1'' ''x.pdf'' \<noteq> []"
    by (simp add: example_matched)
  have "\<not> isl (Inr ''Successfully deleted 2 document(s) with the filename 'x.pdf'.'' :: exn + string)"
    by simp
  with delete_atomic [OF h example_delete]
  have "\<forall>x \<in> set (matching_chunks example_store ''ana'' ''s1'' ''x.pdf'').
         x \<notin> set (chunk_docs (example_store\<lparr>chunk_docs :=
            [((''ana'', ''s1'', 2), chunk ''y.pdf'' ''gamma'' None),
             ((''ana'', ''s1'', 3), chunk ''y.pdf'' ''delta'' (Some [3, 4]))]\<rparr>))"
    by blast
  with h m example_delete show ?thesis by blast
qed

lemma setdefault_mem:
  "(k', v') \<in> set (setdefault k v kvs) \<Longrightarrow> (k', v') \<in> set kvs \<or> (k' = k \<and> v' = v)"
  by (auto simp: setdefault_def split: if_splits)

lemma update_at_mem:
  "(k', v') \<in> set (update_at k f kvs)
     \<Longrightarrow> (k', v') \<in> set kvs \<or> (k' = k \<and> (\<exists>v. (k, v) \<in> set kvs \<and> v' = f v))"
  by (auto simp: update_at_def split: if_splits)

definition summary_sound :: "sessions_summary \<Rightarrow> (string \<times> string option) set \<Rightarrow> bool" where
  "summary_sound summary seen =
     (\<forall>sid files_dict k f c. (sid, files_dict) \<in> set summary \<longrightarrow> (k, (f, c)) \<in> set files_dict
        \<longrightarrow> (sid, Some f) \<in> seen)"

lemma summary_step_sound:
  assumes "summary_sound summary seen"
  shows "summary_sound (summary_step summary doc) (insert doc seen)"
proof (cases "snd doc")
  case None
  with assms show ?thesis
    by (auto simp: summary_step_def summary_sound_def)
next
  case (Some fname)
  show ?thesis
  proof (cases "fst doc = [] \<or> fname = []")
    case True
    with Some assms show ?thesis
      by (auto simp: summary_step_def summary_sound_def)
  next
    case False
    let ?sid = "fst doc"
    let ?s1 = "setdefault ?sid [] summary"
    let ?s2 = "update_at ?sid (setdefault fname (fname, 0)) ?s1"
    let ?s3 = "update_at ?sid (update_at fname (\<lambda>(f, chunk_count). (f, chunk_count + 1))) ?s2"
    have doc: "doc = (?sid, Some fname)"
      using Some by (cases doc) simp
    have s1: "summary_sound ?s1 (insert doc seen)"
      unfolding summary_sound_def
    proof (intro allI impI)
      fix sid files_dict k f c
      assume a: "(sid, files_dict) \<in> set ?s1" and b: "(k, (f, c)) \<in> set files_dict"
      from setdefault_mem [OF a] b have "(sid, files_dict) \<in> set summary"
        by auto
      with assms b show "(sid, Some f) \<in> insert doc seen"
        unfolding summary_sound_def by blast
    qed
    have s2: "summary_sound ?s2 (insert doc seen)"
      unfolding summary_sound_def
    proof (intro allI impI)
      fix sid files_dict k f c
      assume a: "(sid, files_dict) \<in> set ?s2" and b: "(k, (f, c)) \<in> set files_dict"
      from update_at_mem [OF a] show "(sid, Some f) \<in> insert doc seen"
      proof
        assume "(sid, files_dict) \<in> set ?s1"
        with s1 b show ?thesis unfolding summary_sound_def by blast
      next
        assume "sid = ?sid \<and> (\<exists>v. (?sid, v) \<in> set ?s1 \<and> files_dict = setdefault fname (fname, 0) v)"
        then obtain v where sid: "sid = ?sid" and v: "(?sid, v) \<in> set ?s1"
          and fd: "files_dict = setdefault fname (fname, 0) v" by blast
        from b fd have "(k, (f, c)) \<in> set v \<or> (k = fname \<and> (f, c) = (fname, 0))"
          by (auto dest: setdefault_mem)
        then show ?thesis
        proof
          assume "(k, (f, c)) \<in> set v"
          with s1 v sid show ?thesis unfolding summary_sound_def by blast
        next
          assume "k = fname \<and> (f, c) = (fname, 0)"
          with sid doc show ?thesis by simp
        qed
      qed
    qed
    have s3: "summary_sound ?s3 (insert doc seen)"
      unfolding summary_sound_def
    proof (intro allI impI)
      fix sid files_dict k f c
      assume a: "(sid, files_dict) \<in> set ?s3" and b: "(k, (f, c)) \<in> set files_dict"
      from update_at_mem [OF a] show "(sid, Some f) \<in> insert doc seen"
      proof
        assume "(sid, files_dict) \<in> set ?s2"
        with s2 b show ?thesis unfolding summary_sound_def by blast
      next
        assume "sid = ?sid \<and> (\<exists>v. (?sid, v) \<in> set ?s2
                  \<and> files_dict = update_at fname (\<lambda>(f, chunk_count). (f, chunk_count + 1)) v)"
        then obtain v where sid: "sid = ?sid" and v: "(?sid, v) \<in> set ?s2"
          and fd: "files_dict = update_at fname (\<lambda>(f, chunk_count). (f, chunk_count + 1)) v" by blast
        from b fd have "(k, (f, c)) \<in> set v \<or> (\<exists>c'. (k, (f, c')) \<in> set v)"
          by (auto dest!: update_at_mem)
        then obtain c' where "(k, (f, c')) \<in> set v" by blast
        with s2 v sid show ?thesis unfolding summary_sound_def by blast
      qed
    qed
    from s3 Some False show ?thesis
      by (simp add: summary_step_def Let_def)
  qed
qed

lemma summary_fold_sound:
  "summary_sound summary seen
     \<Longrightarrow> summary_sound (foldl summary_step summary docs) (seen \<union> set docs)"
proof (induction docs arbitrary: summary seen)
  case Nil
  then show ?case by simp
next
  case (Cons doc docs)
  from Cons.prems have "summary_sound (summary_step summary doc) (insert doc seen)"
    by (rule summary_step_sound)
  then have "summary_sound (foldl summary_step (summary_step summary doc) docs)
               (insert doc seen \<union> set docs)"
    by (rule Cons.IH)
  then show ?case by simp
qed

lemma stream_all_documents_mem:
  "stream_all_documents env db user sessions = Inr flat \<Longrightarrow> (sid, fn) \<in> set flat
     \<Longrightarrow> \<exists>i d. ((user, sid, i), d) \<in> set (chunk_docs db) \<and> filename d = fn"
proof (induction sessions arbitrary: flat)
  case Nil
  then show ?case by simp
next
  case (Cons session sessions)
  from Cons.prems(1) obtain docs rest where
    docs: "stream_documents env db user session = Inr docs"
    and rest: "stream_all_documents env db user sessions = Inr rest"
    and flat: "flat = map (\<lambda>(r, d). (session, filename d)) docs @ rest"
    by (auto split: sum.splits)
  from Cons.prems(2) flat
  have "(sid, fn) \<in> set (map (\<lambda>(r, d). (session, filename d)) docs) \<or> (sid, fn) \<in> set rest"
    by simp
  then show ?case
  proof
    assume "(sid, fn) \<in> set rest"
    with rest show ?thesis by (rule Cons.IH)
  next
    assume "(sid, fn) \<in> set (map (\<lambda>(r, d). (session, filename d)) docs)"
    then obtain r d where rd: "(r, d) \<in> set docs" and e: "sid = session" "fn = filename d"
      by auto
    from docs have "docs = filter (\<lambda>((u, s, i), d). u = user \<and> s = session) (chunk_docs db)"
      by (rule stream_documents_Inr)
    with rd obtain i where "r = (user, session, i)" "(r, d) \<in> set (chunk_docs db)"
      by auto
    with e show ?thesis by blast
  qed
qed

lemma list_crud_sound:
  assumes "list_crud env db user = Inr listing"
    and "(sid, files) \<in> set listing" and "(f, c) \<in> set files"
  shows "\<exists>i d. ((user, sid, i), d) \<in> set (chunk_docs db) \<and> filename d = Some f"
proof -
  from assms(1) obtain all_sessions flat where
    flat: "stream_all_documents env db user all_sessions = Inr flat"
    and listing: "listing = map (\<lambda>(session_id, files_dict). (session_id, map snd files_dict))
                               (foldl summary_step [] flat)"
    by (auto simp: list_crud_def split: sum.splits)
  have "summary_sound [] {}"
    by (simp add: summary_sound_def)
  then have "summary_sound (foldl summary_step [] flat) ({} \<union> set flat)"
    by (rule summary_fold_sound)
  then have sound: "summary_sound (foldl summary_step [] flat) (set flat)"
    by simp
  from assms(2) listing obtain files_dict where
    fd: "(sid, files_dict) \<in> set (foldl summary_step [] flat)" and files: "files = map snd files_dict"
    by auto
  from assms(3) files obtain k where "(k, (f, c)) \<in> set files_dict"
    by auto
  with sound fd have "(sid, Some f) \<in> set flat"
    unfolding summary_sound_def by blast
  with flat show ?thesis
    by (rule stream_all_documents_mem)
qed

text \<open>
  Claim C8. After a successful \<^verbatim>\<open>delete\<close> of a filename in a scope, every listing
  of that user's documents computed on the resulting store shows no entry for that
  filename among the files of that session.
\<close>

theorem delete_then_list:
  assumes "delete env db user session fname = (Inr msg, db')"
    and "list_crud env' db' user = Inr listing"
  shows "\<forall>(sid, files) \<in> set listing. sid = session \<longrightarrow> fname \<notin> fst ` set files"
proof -
  have "fname \<notin> fst ` set files" if a: "(session, files) \<in> set listing" for files
  proof
  assume "fname \<in> fst ` set files"
  then obtain c where b: "(fname, c) \<in> set files" by force
  from list_crud_sound [OF assms(2) a b] obtain i d where
    d: "((user, session, i), d) \<in> set (chunk_docs db')" and f: "filename d = Some fname"
    by blast
  let ?matched = "filter (\<lambda>(r, d). filename d = Some fname)
                   (filter (\<lambda>((u, s, i), d). u = user \<and> s = session) (chunk_docs db))"
  from delete_cases [OF assms(1)]
  have db': "db' = db\<lparr>chunk_docs := filter (\<lambda>(q, d). q \<notin> fst ` set ?matched) (chunk_docs db)\<rparr>"
    by simp
  with d have "((user, session, i), d) \<in> set (chunk_docs db)"
    and nm: "(user, session, i) \<notin> fst ` set ?matched"
    by auto
  with f have "((user, session, i), d) \<in> set ?matched"
    by simp
  then have "(user, session, i) \<in> fst ` set ?matched"
    by force
  with nm show False by contradiction
  qed
  then show ?thesis by auto
qed

lemma example_list_after_delete:
  "list_crud example_backend
     (example_store\<lparr>chunk_docs :=
           [((''ana'', ''s1'', 2), chunk ''y.pdf'' ''gamma'' None),
            ((''ana'', ''s1'', 3), chunk ''y.pdf'' ''delta'' (Some [3, 4]))]\<rparr>) ''ana''
     = Inr [(''s1'', [(''y.pdf'', 2)])]"
  by (simp add: list_crud_def stream_sessions_def stream_documents_def summary_step_def
        setdefault_def update_at_def example_backend_def example_store_def chunk_def)

theorem delete_then_list_witness:
  "delete example_backend example_store ''ana'' ''s1'' ''x.pdf''
     = (Inr ''Successfully deleted 2 document(s) with the filename 'x.pdf'.'',
        example_store\<lparr>chunk_docs :=
           [((''ana'', ''s1'', 2), chunk ''y.pdf'' ''gamma'' None),
            ((''ana'', ''s1'', 3), chunk ''y.pdf'' ''delta'' (Some [3, 4]))]\<rparr>)
   \<and> list_crud example_backend
        (example_store\<lparr>chunk_docs :=
           [((''ana'', ''s1'', 2), chunk ''y.pdf'' ''gamma'' None),
            ((''ana'', ''s1'', 3), chunk ''y.pdf'' ''delta'' (Some [3, 4]))]\<rparr>) ''ana''
        = Inr [(''s1'', [(''y.pdf'', 2)])]
   \<and> ''x.pdf'' \<notin> fst ` set [(''y.pdf'', 2 :: nat)]"
proof -
  have "(''s1'', [(''y.pdf'', 2 :: nat)]) \<in> set [(''s1'', [(''y.pdf'', 2)])]"
    by simp
  with delete_then_list [OF example_delete example_list_after_delete]
  have "''x.pdf'' \<notin> fst ` set [(''y.pdf'', 2 :: nat)]"
    by blast
  with example_delete example_list_after_delete show ?thesis
    by blast
qed

section \<open>Properties of the endpoints\<close>

text \<open>
  Claim C6, evaluated where no chunk matches. \<^verbatim>\<open>FirestoreCRUD.delete\<close> raises
  HTTPException 404 and re-raises it unchanged, but the \<^verbatim>\<open>except Exception\<close> clause
  of \<^verbatim>\<open>delete_document\<close> catches it, so the endpoint answers with status 500.
\<close>

theorem delete_document_missing_file:
  "delete_document example_backend example_store ''ana'' ''s1'' ''nope.pdf''
     = (Inl (HTTPException 500
          ''Failed to delete the document: 404: No documents found with the filename 'nope.pdf'.''),
        example_store)"
  by (simp add: delete_document_def delete_def delete_handler_def stream_documents_def
        example_backend_def example_store_def chunk_def quoted_def show_nat.simps digit_char_def)

text \<open>
  Claim C5, evaluated in a session without chunks and with a QA chain that returns no
  answer. \<^verbatim>\<open>get_answer\<close> is called once, with empty lists; the 404 raised for the
  empty response is caught by the \<^verbatim>\<open>except Exception\<close> clause of the same
  \<^verbatim>\<open>try\<close>, so the endpoint answers with status 500.
\<close>

theorem question_without_chunks:
  "question example_backend example_store ''ana'' ''s2'' (ascii ''What is X?'')
     = ([(ascii ''What is X?'', [], [])],
        Inl (HTTPException 500
          ''Failed to generate response: 404: No relevant information found for the question.''))"
  by code_simp

section \<open>Properties of the ingestion pipeline\<close>

lemma fold_max_bounds:
  "m0 \<le> fold (\<lambda>((u, s, i), d) m. max (Suc i) m) xs m0
   \<and> (\<forall>u s i d. ((u, s, i), d) \<in> set xs \<longrightarrow> i < fold (\<lambda>((u, s, i), d) m. max (Suc i) m) xs m0)"
proof (induction xs arbitrary: m0)
  case Nil
  then show ?case by simp
next
  case (Cons x xs)
  obtain u s i d where x: "x = ((u, s, i), d)" by (cases x) auto
  let ?f = "\<lambda>((u, s, i), d) m. max (Suc i) m"
  from Cons [of "max (Suc i) m0"]
  have a: "max (Suc i) m0 \<le> fold ?f xs (max (Suc i) m0)"
    and b: "\<forall>u s i' d. ((u, s, i'), d) \<in> set xs \<longrightarrow> i' < fold ?f xs (max (Suc i) m0)"
    by blast+
  from a have "m0 \<le> fold ?f xs (max (Suc i) m0)" and "i < fold ?f xs (max (Suc i) m0)"
    by simp_all
  with b x show ?case by auto
qed

lemma next_free_bound: "((u, s, i), d) \<in> set (chunk_docs db) \<Longrightarrow> i < next_free db"
  unfolding next_free_def using fold_max_bounds [of 0 "chunk_docs db"] by auto

lemma set_chunks_fold:
  assumes "\<forall>(r, d) \<in> set (chunk_docs db). r \<notin> fst ` set new"
    and "distinct (map fst new)"
  shows "foldl apply_write db (map (\<lambda>(r, d). SetChunk r d) new)
         = db\<lparr>chunk_docs := chunk_docs db @ new\<rparr>"
  using assms
proof (induction new arbitrary: db)
  case Nil
  then show ?case by simp
next
  case (Cons x new)
  obtain r d where x: "x = (r, d)" by (cases x)
  let ?db1 = "db\<lparr>chunk_docs := chunk_docs db @ [(r, d)]\<rparr>"
  from Cons.prems(1) x have "filter (\<lambda>(q, _). q \<noteq> r) (chunk_docs db) = chunk_docs db"
    by (auto simp: filter_id_conv)
  then have step: "apply_write db (SetChunk r d) = ?db1"
    by simp
  have fresh: "\<forall>(q, e) \<in> set (chunk_docs ?db1). q \<notin> fst ` set new"
    using Cons.prems x by auto
  have dist: "distinct (map fst new)"
    using Cons.prems(2) by simp
  have "foldl apply_write ?db1 (map (\<lambda>(r, d). SetChunk r d) new)
        = ?db1\<lparr>chunk_docs := chunk_docs ?db1 @ new\<rparr>"
    using fresh dist by (rule Cons.IH)
  with step x show ?case by simp
qed

lemma chunk_records_refs:
  "map fst (chunk_records user session fname ids cvs)
     = map (\<lambda>i. (user, session, i)) (take (length cvs) ids)"
  unfolding chunk_records_def
proof (induction ids arbitrary: cvs)
  case Nil
  then show ?case by simp
next
  case (Cons i ids)
  then show ?case by (cases cvs) simp_all
qed

lemma index_batch_cases:
  assumes "index_batch env db user session fname cvs = (outcome, db')"
  shows "(isl outcome \<and> db' = db)
       \<or> (outcome = Inr (auto_ids db (length cvs))
           \<and> db' = (apply_write (apply_write db (SetUser user)) (SetSession user session))
                     \<lparr>chunk_docs := chunk_docs db
                        @ chunk_records user session fname (auto_ids db (length cvs)) cvs\<rparr>)"
proof -
  let ?ids = "auto_ids db (length cvs)"
  let ?new = "chunk_records user session fname ?ids cvs"
  let ?batch = "SetUser user # SetSession user session #
                  map (\<lambda>(new_id, chunk_data).
                         SetChunk (user, session, new_id) (chunk_payload fname chunk_data))
                      (zip ?ids cvs)"
  let ?db0 = "apply_write (apply_write db (SetUser user)) (SetSession user session)"
  have cd0: "chunk_docs ?db0 = chunk_docs db"
    by simp
  have writes: "map (\<lambda>(new_id, chunk_data).
                         SetChunk (user, session, new_id) (chunk_payload fname chunk_data))
                      (zip ?ids cvs) = map (\<lambda>(r, d). SetChunk r d) ?new"
    by (simp add: chunk_records_def case_prod_unfold comp_def)
  have refs: "map fst ?new = map (\<lambda>i. (user, session, i)) ?ids"
    by (simp add: chunk_records_refs auto_ids_def)
  have dist: "distinct (map fst ?new)"
    unfolding refs by (simp add: distinct_map inj_on_def auto_ids_def)
  have fresh: "\<forall>(r, d) \<in> set (chunk_docs ?db0). r \<notin> fst ` set ?new"
  proof (clarify)
    fix u s i d x
    assume m: "((u, s, i), d) \<in> set (chunk_docs ?db0)" and x: "x \<in> set ?new" "(u, s, i) = fst x"
    from m cd0 have "i < next_free db"
      by (auto dest: next_free_bound)
    moreover from x have "(u, s, i) \<in> set (map fst ?new)"
      by auto
    then have "i \<in> set ?ids"
      unfolding refs by auto
    then have "next_free db \<le> i"
      by (simp add: auto_ids_def)
    ultimately show False by simp
  qed
  have fold: "foldl apply_write db ?batch = ?db0\<lparr>chunk_docs := chunk_docs db @ ?new\<rparr>"
    using set_chunks_fold [OF fresh dist] cd0 unfolding writes by simp
  show ?thesis
  proof (cases "commit_error env db ?batch")
    case None
    with assms fold show ?thesis
      by (simp add: index_batch_def commit_def Let_def)
  next
    case (Some e)
    with assms show ?thesis
      by (auto simp: index_batch_def commit_def Let_def)
  qed
qed




lemma status_error_result [simp]: "status (error_result fname d) = ''error''"
  by (simp add: error_result_def)

lemma status_success_result [simp]: "status (success_result fname ids) = ''success''"
  by (simp add: success_result_def)

lemma process_and_index_file_cases:
  assumes "process_and_index_file env db user session file = (result, db')"
  shows "(status result = ''error'' \<and> db' = db)
       \<or> (\<exists>vs. file_vectors env file = Inr vs
             \<and> result = success_result (upload_filename file)
                          (auto_ids db (length (zip (file_chunks env file) vs)))
             \<and> db' = (apply_write (apply_write db (SetUser user)) (SetSession user session))
                       \<lparr>chunk_docs := chunk_docs db
                          @ chunk_records user session (upload_filename file)
                              (auto_ids db (length (zip (file_chunks env file) vs)))
                              (zip (file_chunks env file) vs)\<rparr>)"
proof (cases "upload_read file")
  case (Inl e)
  with assms show ?thesis
    by (auto simp: process_and_index_file_def)
next
  case (Inr pdf_content)
  let ?chunks = "extract_and_chunk_text env pdf_content"
  have fc: "file_chunks env file = ?chunks"
    using Inr by (simp add: file_chunks_def)
  show ?thesis
  proof (cases "?chunks = []")
    case True
    with assms Inr show ?thesis
      by (auto simp: process_and_index_file_def)
  next
    case ne: False
    show ?thesis
    proof (cases "snd (generate_embeddings_in_batches (embed_content env) ?chunks 250)")
      case (Inl e)
      with assms Inr ne show ?thesis
        by (auto simp: process_and_index_file_def)
    next
      case vs: (Inr chunk_vectors)
      then have fv: "file_vectors env file = Inr chunk_vectors"
        by (simp add: file_vectors_def fc)
      show ?thesis
      proof (cases "chunk_vectors = []")
        case True
        with assms Inr ne vs show ?thesis
          by (auto simp: process_and_index_file_def)
      next
        case False
        have paf: "process_and_index_file env db user session file
            = (case index_batch env db user session (upload_filename file)
                      (zip ?chunks chunk_vectors) of
                 (Inl e, db') \<Rightarrow> (error_result (upload_filename file) (str_exn e), db')
               | (Inr indexed_ids, db') \<Rightarrow>
                   (success_result (upload_filename file) indexed_ids, db'))"
          using Inr ne vs False by (simp add: process_and_index_file_def Let_def)
        obtain outcome db1 where ib: "index_batch env db user session (upload_filename file)
                  (zip ?chunks chunk_vectors) = (outcome, db1)"
          by (cases "index_batch env db user session (upload_filename file)
                  (zip ?chunks chunk_vectors)")
        from index_batch_cases [OF ib] show ?thesis
        proof
          assume "isl outcome \<and> db1 = db"
          then obtain e where o: "outcome = Inl e" and d: "db1 = db"
            by (cases outcome) auto
          from assms have "result = error_result (upload_filename file) (str_exn e)" and "db' = db"
            unfolding paf ib o d by simp_all
          then show ?thesis by simp
        next
          assume a: "outcome = Inr (auto_ids db (length (zip ?chunks chunk_vectors)))
            \<and> db1 = (apply_write (apply_write db (SetUser user)) (SetSession user session))
                     \<lparr>chunk_docs := chunk_docs db
                        @ chunk_records user session (upload_filename file)
                            (auto_ids db (length (zip ?chunks chunk_vectors)))
                            (zip ?chunks chunk_vectors)\<rparr>"
          then have o: "outcome = Inr (auto_ids db (length (zip ?chunks chunk_vectors)))"
            and d: "db1 = (apply_write (apply_write db (SetUser user)) (SetSession user session))
                     \<lparr>chunk_docs := chunk_docs db
                        @ chunk_records user session (upload_filename file)
                            (auto_ids db (length (zip ?chunks chunk_vectors)))
                            (zip ?chunks chunk_vectors)\<rparr>"
            by blast+
          from assms have r: "result = success_result (upload_filename file)
                           (auto_ids db (length (zip ?chunks chunk_vectors)))" and d': "db' = db1"
            unfolding paf ib o by simp_all
          show ?thesis
            unfolding fc using fv r d d' by blast
        qed
      qed
    qed
  qed
qed







lemma process_and_index_file_name:
  "result_filename (fst (process_and_index_file env db user session file)) = upload_filename file"
  by (auto simp: process_and_index_file_def error_result_def success_result_def Let_def
           split: sum.splits prod.splits)

lemma process_and_index_file_status:
  assumes "process_and_index_file env db user session file = (r, db1)"
  shows "(status r = ''error'' \<and> db1 = db) \<or> status r = ''success''"
  using process_and_index_file_cases [OF assms] by auto

lemma process_files_append:
  "process_files env db user session (pre @ post)
     = (case process_files env db user session pre of
          (rs0, db0) \<Rightarrow>
            (case process_files env db0 user session post of
               (rs1, db1) \<Rightarrow> (rs0 @ rs1, db1)))"
  by (induction pre arbitrary: db) (auto split: prod.splits)

lemma process_files_names:
  "map result_filename (fst (process_files env db user session files)) = map upload_filename files"
proof (induction files arbitrary: db)
  case Nil
  then show ?case by simp
next
  case (Cons fl files)
  obtain r db1 where p: "process_and_index_file env db user session fl = (r, db1)"
    by (cases "process_and_index_file env db user session fl")
  obtain rs db2 where q: "process_files env db1 user session files = (rs, db2)"
    by (cases "process_files env db1 user session files")
  from process_and_index_file_name [of env db user session fl] p
  have "result_filename r = upload_filename fl" by simp
  moreover from Cons [of db1] q have "map result_filename rs = map upload_filename files"
    by simp
  ultimately show ?case using p q by simp
qed

lemma process_files_status:
  "r \<in> set (fst (process_files env db user session files))
     \<Longrightarrow> status r = ''success'' \<or> status r = ''error''"
proof (induction files arbitrary: db)
  case Nil
  then show ?case by simp
next
  case (Cons fl files)
  obtain r1 db1 where p: "process_and_index_file env db user session fl = (r1, db1)"
    by (cases "process_and_index_file env db user session fl")
  obtain rs db2 where q: "process_files env db1 user session files = (rs, db2)"
    by (cases "process_files env db1 user session files")
  from Cons.prems p q have "r = r1 \<or> r \<in> set rs" by simp
  then show ?case
  proof
    assume "r = r1"
    with process_and_index_file_status [OF p] show ?thesis by blast
  next
    assume "r \<in> set rs"
    with Cons.IH [of db1] q show ?thesis by simp
  qed
qed

text \<open>
  Claim C3. For a non-empty file list \<^verbatim>\<open>index_documents\<close> never raises. Every
  file gets its own result, in order, whatever happens to the others: a file is processed
  on the store its predecessors left, a file that fails leaves that store untouched, and
  the files after it are processed all the same. If at least one file succeeds the
  response is 200 "completed" with the successful and the failed results; if none
  succeeds the response is 500 with all (failed) results.
\<close>

theorem index_documents_partial_failure:
  assumes "files \<noteq> []"
  shows "\<exists>results db'.
           process_files env db user session files = (results, db')
         \<and> map result_filename results = map upload_filename files
         \<and> ((\<exists>r \<in> set results. status r = ''success'') \<longrightarrow>
               index_documents env db user session files
                 = (Inr (200, Completed ''Document processing completed.''
                          (filter (\<lambda>r. status r = ''success'') results)
                          (filter (\<lambda>r. status r = ''error'') results)), db'))
         \<and> ((\<forall>r \<in> set results. status r \<noteq> ''success'') \<longrightarrow>
               index_documents env db user session files
                 = (Inr (500, AllFailed ''Failed to process all documents.'' results), db'))
         \<and> (\<forall>pre file post. files = pre @ file # post \<longrightarrow>
               (\<exists>rs0 db0 r db1 rs2.
                   process_files env db user session pre = (rs0, db0)
                 \<and> process_and_index_file env db0 user session file = (r, db1)
                 \<and> process_files env db1 user session post = (rs2, db')
                 \<and> results = rs0 @ r # rs2
                 \<and> (status r = ''error'' \<longrightarrow> db1 = db0)))"
proof -
  obtain results db' where pf: "process_files env db user session files = (results, db')"
    by (cases "process_files env db user session files")
  have names: "map result_filename results = map upload_filename files"
    using process_files_names [of env db user session files] pf by simp
  have st: "status r = ''success'' \<or> status r = ''error''" if "r \<in> set results" for r
    using process_files_status [of r env db user session files] pf that by simp
  have ne: "results \<noteq> []"
    using names assms by auto
  have some: "index_documents env db user session files
                 = (Inr (200, Completed ''Document processing completed.''
                          (filter (\<lambda>r. status r = ''success'') results)
                          (filter (\<lambda>r. status r = ''error'') results)), db')"
    if "\<exists>r \<in> set results. status r = ''success''"
  proof -
    from that have "filter (\<lambda>r. status r = ''success'') results \<noteq> []"
      by (simp add: filter_empty_conv)
    with assms pf show ?thesis
      by (simp add: index_documents_def Let_def)
  qed
  have none: "index_documents env db user session files
                 = (Inr (500, AllFailed ''Failed to process all documents.'' results), db')"
    if a: "\<forall>r \<in> set results. status r \<noteq> ''success''"
  proof -
    from a have s: "filter (\<lambda>r. status r = ''success'') results = []"
      by (simp add: filter_empty_conv)
    from a st have "\<forall>r \<in> set results. status r = ''error''"
      by blast
    then have f: "filter (\<lambda>r. status r = ''error'') results = results"
      by (simp add: filter_id_conv)
    from assms pf s f ne show ?thesis
      by (simp add: index_documents_def Let_def)
  qed
  have split: "\<exists>rs0 db0 r db1 rs2.
                   process_files env db user session pre = (rs0, db0)
                 \<and> process_and_index_file env db0 user session fl = (r, db1)
                 \<and> process_files env db1 user session post = (rs2, db')
                 \<and> results = rs0 @ r # rs2
                 \<and> (status r = ''error'' \<longrightarrow> db1 = db0)"
    if f: "files = pre @ fl # post" for pre fl post
  proof -
    obtain rs0 db0 where p0: "process_files env db user session pre = (rs0, db0)"
      by (cases "process_files env db user session pre")
    obtain r db1 where p1: "process_and_index_file env db0 user session fl = (r, db1)"
      by (cases "process_and_index_file env db0 user session fl")
    obtain rs2 db2 where p2: "process_files env db1 user session post = (rs2, db2)"
      by (cases "process_files env db1 user session post")
    from pf f p0 p1 p2 have "results = rs0 @ r # rs2" and "db' = db2"
      by (simp_all add: process_files_append)
    moreover from process_and_index_file_status [OF p1]
    have "status r = ''error'' \<longrightarrow> db1 = db0"
      by auto
    ultimately show ?thesis
      using p0 p1 p2 by blast
  qed
  from pf names some none split show ?thesis
    by blast
qed

lemma example_process_corrupt:
  "process_files example_backend example_store ''ana'' ''s1'' [corrupt_file]
     = ([error_result ''corrupt.pdf'' ''No text found or failed to create chunks.''],
        example_store)"
  by code_simp

lemma example_process_files:
  "process_files example_backend example_store ''ana'' ''s1'' [short_file, corrupt_file]
     = ([success_result ''z.pdf'' [4],
         error_result ''corrupt.pdf'' ''No text found or failed to create chunks.''],
        example_store\<lparr>chunk_docs := chunk_docs example_store
           @ [((''ana'', ''s1'', 4), chunk ''z.pdf'' ''hello'' (Some [5]))]\<rparr>)"
  by code_simp

theorem index_documents_partial_failure_witness:
  "[corrupt_file] \<noteq> []
   \<and> index_documents example_backend example_store ''ana'' ''s1'' [corrupt_file]
       = (Inr (500, AllFailed ''Failed to process all documents.''
                 [error_result ''corrupt.pdf'' ''No text found or failed to create chunks.'']),
          example_store)
   \<and> [short_file, corrupt_file] \<noteq> []
   \<and> index_documents example_backend example_store ''ana'' ''s1'' [short_file, corrupt_file]
       = (Inr (200, Completed ''Document processing completed.''
                 [success_result ''z.pdf'' [4]]
                 [error_result ''corrupt.pdf'' ''No text found or failed to create chunks.'']),
          example_store\<lparr>chunk_docs := chunk_docs example_store
             @ [((''ana'', ''s1'', 4), chunk ''z.pdf'' ''hello'' (Some [5]))]\<rparr>)"
proof -
  have h: "[short_file, corrupt_file] \<noteq> []"
    by simp
  from index_documents_partial_failure [OF h, of example_backend example_store "''ana''" "''s1''"]
  obtain results db' where
    a: "process_files example_backend example_store ''ana'' ''s1'' [short_file, corrupt_file]
          = (results, db')"
    and b: "(\<exists>r \<in> set results. status r = ''success'') \<longrightarrow>
               index_documents example_backend example_store ''ana'' ''s1'' [short_file, corrupt_file]
                 = (Inr (200, Completed ''Document processing completed.''
                          (filter (\<lambda>r. status r = ''success'') results)
                          (filter (\<lambda>r. status r = ''error'') results)), db')"
    by blast
  from a have r: "results = [success_result ''z.pdf'' [4],
         error_result ''corrupt.pdf'' ''No text found or failed to create chunks.'']"
    and d: "db' = example_store\<lparr>chunk_docs := chunk_docs example_store
           @ [((''ana'', ''s1'', 4), chunk ''z.pdf'' ''hello'' (Some [5]))]\<rparr>"
    unfolding example_process_files by simp_all
  have "\<exists>r \<in> set results. status r = ''success''"
    unfolding r by simp
  with b have "index_documents example_backend example_store ''ana'' ''s1'' [short_file, corrupt_file]
                 = (Inr (200, Completed ''Document processing completed.''
                          (filter (\<lambda>r. status r = ''success'') results)
                          (filter (\<lambda>r. status r = ''error'') results)), db')"
    by blast
  then have "index_documents example_backend example_store ''ana'' ''s1'' [short_file, corrupt_file]
       = (Inr (200, Completed ''Document processing completed.''
                 [success_result ''z.pdf'' [4]]
                 [error_result ''corrupt.pdf'' ''No text found or failed to create chunks.'']),
          example_store\<lparr>chunk_docs := chunk_docs example_store
             @ [((''ana'', ''s1'', 4), chunk ''z.pdf'' ''hello'' (Some [5]))]\<rparr>)"
    unfolding r d by simp
  moreover have h': "[corrupt_file] \<noteq> []"
    by simp
  moreover have "index_documents example_backend example_store ''ana'' ''s1'' [corrupt_file]
       = (Inr (500, AllFailed ''Failed to process all documents.''
                 [error_result ''corrupt.pdf'' ''No text found or failed to create chunks.'']),
          example_store)"
  proof -
    from index_documents_partial_failure [OF h', of example_backend example_store "''ana''" "''s1''"]
    obtain results1 db1 where
      a1: "process_files example_backend example_store ''ana'' ''s1'' [corrupt_file]
             = (results1, db1)"
      and b1: "(\<forall>r \<in> set results1. status r \<noteq> ''success'') \<longrightarrow>
               index_documents example_backend example_store ''ana'' ''s1'' [corrupt_file]
                 = (Inr (500, AllFailed ''Failed to process all documents.'' results1), db1)"
      by blast
    from a1 have r1: "results1
           = [error_result ''corrupt.pdf'' ''No text found or failed to create chunks.'']"
      and d1: "db1 = example_store"
      unfolding example_process_corrupt by simp_all
    have "\<forall>r \<in> set results1. status r \<noteq> ''success''"
      unfolding r1 by simp
    with b1 show ?thesis
      unfolding r1 d1 by blast
  qed
  ultimately show ?thesis
    using h by blast
qed

section \<open>Properties of the retrieval ranker\<close>

















end
